theory Spec2Isabelle
  imports Complex_Main
begin

section \<open>JavaScript values that reach the storage manager\<close>

text \<open>
  Everything the \<^verbatim>\<open>StorageManager\<close> class persists goes through
  \<^verbatim>\<open>JSON.stringify\<close> and comes back through \<^verbatim>\<open>JSON.parse\<close>, so a stored
  value is a JSON value. An object is the association list of its own properties (the
  first binding of a key is the one that is read). A number is a real: the manager only
  tests stored numbers for zero and compares them.
  A possibly missing value (\<^verbatim>\<open>undefined\<close>) is \<open>None\<close> of \<open>json option\<close>.
  Strings are lists of 8-bit characters (the bytes of the UTF-8 form).
\<close>

datatype json =
    JNull
  | JBool bool
  | JNum real
  | JStr string
  | JArr "json list"
  | JObj "(string \<times> json) list"

datatype error = TypeError | SyntaxError | StorageError | IDBError

text \<open>Truthiness of a value, as \<^verbatim>\<open>if (v)\<close>, \<^verbatim>\<open>!v\<close> and \<^verbatim>\<open>v && w\<close> test it.\<close>

fun truthy :: "json option \<Rightarrow> bool" where
  "truthy None = False"
| "truthy (Some JNull) = False"
| "truthy (Some (JBool b)) = b"
| "truthy (Some (JNum n)) = (n \<noteq> 0)"
| "truthy (Some (JStr s)) = (s \<noteq> [])"
| "truthy (Some (JArr xs)) = True"
| "truthy (Some (JObj kvs)) = True"

text \<open>
  Property read \<^verbatim>\<open>v.k\<close> for the data property names the manager uses
  (\<^verbatim>\<open>id\<close>, \<^verbatim>\<open>status\<close>, \<^verbatim>\<open>titulo\<close>, \<^verbatim>\<open>profile\<close>, ...):
  reading a property of \<^verbatim>\<open>null\<close> throws a TypeError, an object yields its binding
  or \<^verbatim>\<open>undefined\<close>, every other value yields \<^verbatim>\<open>undefined\<close>.
\<close>

fun get_prop :: "json \<Rightarrow> string \<Rightarrow> error + json option" where
  "get_prop JNull k = Inl TypeError"
| "get_prop (JObj kvs) k = Inr (map_of kvs k)"
| "get_prop v k = Inr None"

text \<open>
  Strict equality \<^verbatim>\<open>a === b\<close> between a value read from a freshly loaded
  collection and a value supplied by the caller: primitives compare by value, and an
  object or array of a freshly parsed collection is never the caller's own reference.
\<close>

fun strict_eq :: "json option \<Rightarrow> json option \<Rightarrow> bool" where
  "strict_eq None None = True"
| "strict_eq (Some JNull) (Some JNull) = True"
| "strict_eq (Some (JBool a)) (Some (JBool b)) = (a = b)"
| "strict_eq (Some (JNum a)) (Some (JNum b)) = (a = b)"
| "strict_eq (Some (JStr a)) (Some (JStr b)) = (a = b)"
| "strict_eq a b = False"

section \<open>The two backends\<close>

datatype resource = Profile | Settings | Tasks | Objects | Requests

text \<open>\<^verbatim>\<open>this.keys\<close>: the key-value names of the five resources, and the theme's.\<close>

fun keys :: "resource \<Rightarrow> string" where
  "keys Profile = ''sap_migration_profile''"
| "keys Settings = ''sap_migration_settings''"
| "keys Tasks = ''sap_migration_tasks''"
| "keys Objects = ''sap_migration_objects''"
| "keys Requests = ''sap_migration_requests''"


text \<open>\<^verbatim>\<open>['tasks', 'objects', 'requests'].includes(storeName)\<close>\<close>

definition is_collection :: "resource \<Rightarrow> bool" where
  "is_collection r = (r \<in> set [Tasks, Objects, Requests])"

text \<open>
  A string held by the key-value store, classified by what the manager's read path does with
  it: the empty string (falsy), a string on which \<^verbatim>\<open>JSON.parse\<close> throws, or the JSON
  text of a value (what \<^verbatim>\<open>JSON.stringify\<close> wrote, \<^verbatim>\<open>JSON.parse\<close> gives the value back).
\<close>

datatype stored = EmptyText | BadText | JsonText json

text \<open>
  The state: the key-value store, \<^verbatim>\<open>this.db\<close> (\<open>None\<close> while the indexed database
  is unsupported or not open; otherwise each object store as the sequence of records
  \<^verbatim>\<open>getAll\<close> yields, the records of one save taken in the order they were added), and
  the change events dispatched so far.
\<close>

record storage =
  localStorage :: "string \<Rightarrow> stored option"
  db :: "(resource \<Rightarrow> json list) option"
  events :: "(string \<times> json option) list"

text \<open>
  What the backends do during one call of the manager is outside the program. Each way a
  backend call of the source can fail is a flag; the source's \<^verbatim>\<open>try/catch\<close> blocks decide
  what becomes of the failure.
  \<^item> \<open>ls_get_throws\<close>, \<open>ls_set_throws\<close>, \<open>ls_remove_throws\<close>: \<^verbatim>\<open>localStorage.getItem\<close>,
    \<^verbatim>\<open>JSON.stringify\<close> or \<^verbatim>\<open>setItem\<close>, and \<^verbatim>\<open>removeItem\<close> throw;
  \<^item> \<open>idb_getAll_rejects\<close>: the promise of \<^verbatim>\<open>getFromIndexedDB\<close> rejects;
  \<^item> \<open>idb_tx_throws\<close>: \<^verbatim>\<open>this.db.transaction\<close> throws in \<^verbatim>\<open>saveData\<close>;
  \<^item> \<open>idb_clear_rejects\<close>: the promise of \<^verbatim>\<open>clearStore\<close> rejects;
  \<^item> \<open>idb_add_throws = Some k\<close>: \<^verbatim>\<open>store.add\<close> throws on the item of index \<open>k\<close>
    (index 0: the transaction opened before the awaited clear is no longer active);
  \<^item> \<open>idb_tx_errors\<close>: the transaction of \<^verbatim>\<open>saveData\<close> ends with its error event; otherwise
    it ends with its complete event. A transaction that reports neither is not modelled.
\<close>

record faults =
  ls_get_throws :: bool
  ls_set_throws :: bool
  ls_remove_throws :: bool
  idb_getAll_rejects :: bool
  idb_tx_throws :: bool
  idb_clear_rejects :: bool
  idb_add_throws :: "nat option"
  idb_tx_errors :: bool

definition no_faults :: faults where
  "no_faults = \<lparr> ls_get_throws = False, ls_set_throws = False, ls_remove_throws = False,
     idb_getAll_rejects = False, idb_tx_throws = False, idb_clear_rejects = False,
     idb_add_throws = None, idb_tx_errors = False \<rparr>"

definition empty_storage :: storage where
  "empty_storage = \<lparr> localStorage = (\<lambda>k. None), db = None, events = [] \<rparr>"

section \<open>Generic load and save\<close>

text \<open>\<^verbatim>\<open>getDefaultData(storeName)\<close>; the avatar is the rocket emoji, U+1F680.\<close>

fun getDefaultData :: "resource \<Rightarrow> json" where
  "getDefaultData Profile = JObj [(''nome'', JStr ''''), (''empresa'', JStr ''''),
     (''inicioProject'', JStr ''''), (''cliente'', JStr ''''),
     (''avatar'', JStr [CHR 0xF0, CHR 0x9F, CHR 0x9A, CHR 0x80])]"
| "getDefaultData Settings = JObj [(''theme'', JStr ''light''), (''notifications'', JBool True),
     (''autoSave'', JBool True), (''language'', JStr ''pt-BR'')]"
| "getDefaultData Tasks = JArr []"
| "getDefaultData Objects = JArr []"
| "getDefaultData Requests = JArr []"

text \<open>The elements of a value when \<^verbatim>\<open>Array.isArray\<close> holds of it, none otherwise.\<close>

definition array_items :: "json \<Rightarrow> json list" where
  "array_items v = (case v of JArr items \<Rightarrow> items | _ \<Rightarrow> [])"

text \<open>\<^verbatim>\<open>getFromIndexedDB(storeName)\<close>: the promise of \<^verbatim>\<open>store.getAll()\<close>.\<close>

definition getFromIndexedDB :: "faults \<Rightarrow> (resource \<Rightarrow> json list) \<Rightarrow> resource \<Rightarrow> error + json list" where
  "getFromIndexedDB f stores r = (if idb_getAll_rejects f then Inl IDBError else Inr (stores r))"

text \<open>\<^verbatim>\<open>localStorage.getItem(key)\<close>\<close>

definition getItem :: "faults \<Rightarrow> storage \<Rightarrow> string \<Rightarrow> error + stored option" where
  "getItem f s k = (if ls_get_throws f then Inl StorageError else Inr (localStorage s k))"

text \<open>
  \<^verbatim>\<open>loadData(storeName)\<close>. The first \<^verbatim>\<open>try\<close> returns the indexed store when it is
  non-empty and swallows a rejection; the second reads the key-value entry, parses it, and
  substitutes the default when the entry is missing or empty, or when reading or parsing
  throws.
\<close>

definition loadData :: "faults \<Rightarrow> storage \<Rightarrow> resource \<Rightarrow> error + json" where
  "loadData f s r =
     (let indexed =
        (case db s of
           None \<Rightarrow> None
         | Some stores \<Rightarrow>
             if is_collection r then
               (case getFromIndexedDB f stores r of
                  Inl e \<Rightarrow> None
                | Inr data \<Rightarrow> if length data > 0 then Some data else None)
             else None)
      in case indexed of
           Some data \<Rightarrow> Inr (JArr data)
         | None \<Rightarrow>
             (case getItem f s (keys r) of
                Inl e \<Rightarrow> Inr (getDefaultData r)
              | Inr None \<Rightarrow> Inr (getDefaultData r)
              | Inr (Some EmptyText) \<Rightarrow> Inr (getDefaultData r)
              | Inr (Some BadText) \<Rightarrow> Inr (getDefaultData r)
              | Inr (Some (JsonText v)) \<Rightarrow> Inr v))"

text \<open>\<^verbatim>\<open>clearStore(storeName)\<close>\<close>

definition clearStore :: "faults \<Rightarrow> storage \<Rightarrow> resource \<Rightarrow> (error + unit) \<times> storage" where
  "clearStore f s r =
     (case db s of
        None \<Rightarrow> (Inr (), s)
      | Some stores \<Rightarrow>
          if idb_clear_rejects f then (Inl IDBError, s)
          else (Inr (), s\<lparr>db := Some (stores(r := []))\<rparr>))"

text \<open>
  The loop \<^verbatim>\<open>for (const item of data) await store.add(item)\<close>: \<open>i\<close> is the index of
  the next item, \<open>store\<close> the records added so far. An \<^verbatim>\<open>add\<close> that throws leaves the
  loop with the records added before it.
\<close>

fun add_all :: "faults \<Rightarrow> nat \<Rightarrow> json list \<Rightarrow> json list \<Rightarrow> (error + unit) \<times> json list" where
  "add_all f i store [] = (Inr (), store)"
| "add_all f i store (item # rest) =
     (if idb_add_throws f = Some i then (Inl IDBError, store)
      else add_all f (Suc i) (store @ [item]) rest)"

text \<open>
  \<^verbatim>\<open>saveData(storeName, data)\<close>. The key-value write sits in its own \<^verbatim>\<open>try/catch\<close>.
  The indexed write happens when \<^verbatim>\<open>this.db\<close> is set and the resource is a collection:
  whatever throws inside its \<^verbatim>\<open>try\<close> (opening the transaction, clearing, adding) is
  caught and logged, but the promise returned at its end is not awaited inside the
  \<^verbatim>\<open>try\<close>, so when the transaction reports an error the rejection reaches the caller;
  the aborted transaction leaves the store as the clear left it.
\<close>

definition saveData :: "faults \<Rightarrow> storage \<Rightarrow> resource \<Rightarrow> json \<Rightarrow> (error + unit) \<times> storage" where
  "saveData f s r data =
     (let s1 = (if ls_set_throws f then s
                else s\<lparr>localStorage := (localStorage s)(keys r := Some (JsonText data))\<rparr>)
      in case db s1 of
           None \<Rightarrow> (Inr (), s1)
         | Some stores0 \<Rightarrow>
             if \<not> is_collection r then (Inr (), s1)
             else if idb_tx_throws f then (Inr (), s1)
             else
               (case clearStore f s1 r of
                  (Inl e, s2) \<Rightarrow> (Inr (), s2)
                | (Inr u, s2) \<Rightarrow>
                    (case add_all f 0 [] (array_items data) of
                       (Inl e, added) \<Rightarrow>
                         (Inr (), s2\<lparr>db := map_option (\<lambda>stores. stores(r := added)) (db s2)\<rparr>)
                     | (Inr u', added) \<Rightarrow>
                         if idb_tx_errors f then (Inl IDBError, s2)
                         else (Inr (), s2\<lparr>db := map_option (\<lambda>stores. stores(r := added)) (db s2)\<rparr>))))"

text \<open>\<^verbatim>\<open>dispatchEvent(eventName, data)\<close>\<close>

definition dispatchEvent :: "storage \<Rightarrow> string \<Rightarrow> json option \<Rightarrow> storage" where
  "dispatchEvent s eventName detail = s\<lparr>events := events s @ [(eventName, detail)]\<rparr>"

section \<open>Collections\<close>

text \<open>\<^verbatim>\<open>const xs = await this.loadData(r); return Array.isArray(xs) ? xs : [];\<close>\<close>

definition getCollection :: "faults \<Rightarrow> storage \<Rightarrow> resource \<Rightarrow> error + json list" where
  "getCollection f s r =
     (case loadData f s r of
        Inl e \<Rightarrow> Inl e
      | Inr v \<Rightarrow> Inr (array_items v))"

definition getTasks :: "faults \<Rightarrow> storage \<Rightarrow> error + json list" where
  "getTasks f s = getCollection f s Tasks"

definition getObjects :: "faults \<Rightarrow> storage \<Rightarrow> error + json list" where
  "getObjects f s = getCollection f s Objects"

definition getRequests :: "faults \<Rightarrow> storage \<Rightarrow> error + json list" where
  "getRequests f s = getCollection f s Requests"

text \<open>
  \<^verbatim>\<open>xs.findIndex(t => t.id === x.id)\<close>: the callback runs on each element until it is
  true; \<open>None\<close> is the source's \<open>-1\<close>. The callback reads \<^verbatim>\<open>t.id\<close> and then
  \<^verbatim>\<open>x.id\<close>, either of which throws on \<^verbatim>\<open>null\<close>.
\<close>

fun findIndex_id :: "json list \<Rightarrow> json \<Rightarrow> error + nat option" where
  "findIndex_id [] x = Inr None"
| "findIndex_id (t # ts) x =
     (case get_prop t ''id'' of
        Inl e \<Rightarrow> Inl e
      | Inr a \<Rightarrow>
          (case get_prop x ''id'' of
             Inl e \<Rightarrow> Inl e
           | Inr b \<Rightarrow>
               if strict_eq a b then Inr (Some 0)
               else (case findIndex_id ts x of
                       Inl e \<Rightarrow> Inl e
                     | Inr None \<Rightarrow> Inr None
                     | Inr (Some i) \<Rightarrow> Inr (Some (Suc i)))))"

text \<open>\<^verbatim>\<open>xs.find(t => t.id === wanted)\<close>; \<open>None\<close> is \<^verbatim>\<open>undefined\<close>.\<close>

fun find_id :: "json list \<Rightarrow> json option \<Rightarrow> error + json option" where
  "find_id [] wanted = Inr None"
| "find_id (t # ts) wanted =
     (case get_prop t ''id'' of
        Inl e \<Rightarrow> Inl e
      | Inr a \<Rightarrow> if strict_eq a wanted then Inr (Some t) else find_id ts wanted)"

text \<open>\<^verbatim>\<open>xs.filter(t => t.id !== unwanted)\<close>\<close>

fun filter_id_ne :: "json list \<Rightarrow> json option \<Rightarrow> error + json list" where
  "filter_id_ne [] unwanted = Inr []"
| "filter_id_ne (t # ts) unwanted =
     (case get_prop t ''id'' of
        Inl e \<Rightarrow> Inl e
      | Inr a \<Rightarrow>
          (case filter_id_ne ts unwanted of
             Inl e \<Rightarrow> Inl e
           | Inr rest \<Rightarrow> Inr (if \<not> strict_eq a unwanted then t # rest else rest)))"

text \<open>
  The body the three upserts share: load the collection, replace the record at the index
  found or push the new one, save the whole collection, dispatch the update event, return
  the record.
\<close>

definition upsert :: "faults \<Rightarrow> storage \<Rightarrow> resource \<Rightarrow> string \<Rightarrow> json \<Rightarrow> (error + json) \<times> storage" where
  "upsert f s r eventName x =
     (case getCollection f s r of
        Inl e \<Rightarrow> (Inl e, s)
      | Inr xs \<Rightarrow>
          (case findIndex_id xs x of
             Inl e \<Rightarrow> (Inl e, s)
           | Inr existingIndex \<Rightarrow>
               (let xs' = (case existingIndex of Some i \<Rightarrow> xs[i := x] | None \<Rightarrow> xs @ [x])
                in case saveData f s r (JArr xs') of
                     (Inl e, s1) \<Rightarrow> (Inl e, s1)
                   | (Inr u, s1) \<Rightarrow> (Inr x, dispatchEvent s1 eventName (Some (JArr xs'))))))"

definition saveTask :: "faults \<Rightarrow> storage \<Rightarrow> json \<Rightarrow> (error + json) \<times> storage" where
  "saveTask f s task = upsert f s Tasks ''tasksUpdated'' task"

definition saveObject :: "faults \<Rightarrow> storage \<Rightarrow> json \<Rightarrow> (error + json) \<times> storage" where
  "saveObject f s object = upsert f s Objects ''objectsUpdated'' object"

definition saveRequest :: "faults \<Rightarrow> storage \<Rightarrow> json \<Rightarrow> (error + json) \<times> storage" where
  "saveRequest f s request = upsert f s Requests ''requestsUpdated'' request"

text \<open>The body the two deletes share.\<close>

definition delete_by_id :: "faults \<Rightarrow> storage \<Rightarrow> resource \<Rightarrow> string \<Rightarrow> json option \<Rightarrow> (error + unit) \<times> storage" where
  "delete_by_id f s r eventName unwanted =
     (case getCollection f s r of
        Inl e \<Rightarrow> (Inl e, s)
      | Inr xs \<Rightarrow>
          (case filter_id_ne xs unwanted of
             Inl e \<Rightarrow> (Inl e, s)
           | Inr filtered \<Rightarrow>
               (case saveData f s r (JArr filtered) of
                  (Inl e, s1) \<Rightarrow> (Inl e, s1)
                | (Inr u, s1) \<Rightarrow> (Inr (), dispatchEvent s1 eventName (Some (JArr filtered))))))"


definition deleteObject :: "faults \<Rightarrow> storage \<Rightarrow> json option \<Rightarrow> (error + unit) \<times> storage" where
  "deleteObject f s objectId = delete_by_id f s Objects ''objectsUpdated'' objectId"

text \<open>The body the two lookups share.\<close>

definition get_by_id :: "faults \<Rightarrow> storage \<Rightarrow> resource \<Rightarrow> json option \<Rightarrow> error + json option" where
  "get_by_id f s r wanted =
     (case getCollection f s r of
        Inl e \<Rightarrow> Inl e
      | Inr xs \<Rightarrow> find_id xs wanted)"

definition getTaskById :: "faults \<Rightarrow> storage \<Rightarrow> json option \<Rightarrow> error + json option" where
  "getTaskById f s taskId = get_by_id f s Tasks taskId"

definition getObjectById :: "faults \<Rightarrow> storage \<Rightarrow> json option \<Rightarrow> error + json option" where
  "getObjectById f s objectId = get_by_id f s Objects objectId"

section \<open>Profile and settings\<close>



definition saveProfile :: "faults \<Rightarrow> storage \<Rightarrow> json \<Rightarrow> (error + unit) \<times> storage" where
  "saveProfile f s profile =
     (case saveData f s Profile profile of
        (Inl e, s1) \<Rightarrow> (Inl e, s1)
      | (Inr u, s1) \<Rightarrow> (Inr (), dispatchEvent s1 ''profileUpdated'' (Some profile)))"

section \<open>Task ids\<close>

text \<open>\<^verbatim>\<open>s.startsWith(p)\<close>, \<^verbatim>\<open>s.includes(sub)\<close> and \<^verbatim>\<open>s.replace(pat, rep)\<close> with a string
  pattern, which replaces the first occurrence only.\<close>

definition startsWith :: "string \<Rightarrow> string \<Rightarrow> bool" where
  "startsWith s p = (take (length p) s = p)"

fun includes_str :: "string \<Rightarrow> string \<Rightarrow> bool" where
  "includes_str [] sub = (sub = [])"
| "includes_str (c # cs) sub = (startsWith (c # cs) sub \<or> includes_str cs sub)"













section \<open>Export, import, clear\<close>

datatype op_result = Success string | Failure string error

text \<open>The store name of a resource, which is also its key in an export document.\<close>

fun resource_name :: "resource \<Rightarrow> string" where
  "resource_name Profile = ''profile''"
| "resource_name Settings = ''settings''"
| "resource_name Tasks = ''tasks''"
| "resource_name Objects = ''objects''"
| "resource_name Requests = ''requests''"


text \<open>
  The argument of \<^verbatim>\<open>importData\<close>: a string, which is parsed, or any other value
  (possibly \<^verbatim>\<open>undefined\<close>), which is taken as it is.
\<close>

datatype import_source = FromString stored | FromValue "json option"

definition parse_import :: "import_source \<Rightarrow> error + json option" where
  "parse_import src =
     (case src of
        FromString EmptyText \<Rightarrow> Inl SyntaxError
      | FromString BadText \<Rightarrow> Inl SyntaxError
      | FromString (JsonText v) \<Rightarrow> Inr (Some v)
      | FromValue v \<Rightarrow> Inr v)"

text \<open>\<^verbatim>\<open>if (data.r) await this.saveData('r', data.r);\<close>\<close>

definition import_resource :: "faults \<Rightarrow> storage \<Rightarrow> json option \<Rightarrow> resource \<Rightarrow> (error + unit) \<times> storage" where
  "import_resource f s data r =
     (case data of
        None \<Rightarrow> (Inl TypeError, s)
      | Some d \<Rightarrow>
          (case get_prop d (resource_name r) of
             Inl e \<Rightarrow> (Inl e, s)
           | Inr None \<Rightarrow> (Inr (), s)
           | Inr (Some v) \<Rightarrow> if truthy (Some v) then saveData f s r v else (Inr (), s)))"

text \<open>The conditional saves one after the other; the first that throws ends the sequence.\<close>

fun import_all :: "faults \<Rightarrow> storage \<Rightarrow> json option \<Rightarrow> resource list \<Rightarrow> (error + unit) \<times> storage" where
  "import_all f s data [] = (Inr (), s)"
| "import_all f s data (r # rs) =
     (case import_resource f s data r of
        (Inl e, s1) \<Rightarrow> (Inl e, s1)
      | (Inr u, s1) \<Rightarrow> import_all f s1 data rs)"

text \<open>
  \<^verbatim>\<open>importData(jsonData)\<close>: the whole body is inside \<^verbatim>\<open>try\<close>, and each save is
  awaited there, so every failure becomes the failure result.
\<close>

definition importData :: "faults \<Rightarrow> storage \<Rightarrow> import_source \<Rightarrow> (error + op_result) \<times> storage" where
  "importData f s jsonData =
     (case parse_import jsonData of
        Inl e \<Rightarrow> (Inr (Failure ''Erro ao importar dados: '' e), s)
      | Inr data \<Rightarrow>
          (case import_all f s data [Profile, Settings, Tasks, Objects, Requests] of
             (Inl e, s1) \<Rightarrow> (Inr (Failure ''Erro ao importar dados: '' e), s1)
           | (Inr u, s1) \<Rightarrow>
               (Inr (Success ''Dados importados com sucesso!''),
                dispatchEvent s1 ''dataImported'' data)))"



section \<open>Search\<close>

text \<open>\<^verbatim>\<open>s.toLowerCase()\<close> on the ASCII letters; other bytes are kept.\<close>

definition toLowerCase :: "string \<Rightarrow> string" where
  "toLowerCase s =
     map (\<lambda>c. if 65 \<le> (of_char c :: nat) \<and> (of_char c :: nat) \<le> 90
               then char_of ((of_char c :: nat) + 32) else c) s"

text \<open>The call \<^verbatim>\<open>v.toLowerCase()\<close>: only a string has the method.\<close>

definition lower_of :: "json option \<Rightarrow> error + string" where
  "lower_of v = (case v of Some (JStr s) \<Rightarrow> Inr (toLowerCase s) | _ \<Rightarrow> Inl TypeError)"

text \<open>\<^verbatim>\<open>x.field.toLowerCase().includes(query.toLowerCase())\<close>\<close>

definition field_includes :: "json \<Rightarrow> string \<Rightarrow> json option \<Rightarrow> error + bool" where
  "field_includes x field query =
     (case get_prop x field of
        Inl e \<Rightarrow> Inl e
      | Inr v \<Rightarrow>
          (case lower_of v of
             Inl e \<Rightarrow> Inl e
           | Inr s \<Rightarrow>
               (case lower_of query of
                  Inl e \<Rightarrow> Inl e
                | Inr q \<Rightarrow> Inr (includes_str s q))))"

text \<open>
  \<^verbatim>\<open>matchesQuery\<close>, as a truth value: \<^verbatim>\<open>!query || x.name... || x.id... ||
  (x.notes && x.notes...)\<close>, where \<open>name\<close> is \<^verbatim>\<open>titulo\<close> for a task and \<^verbatim>\<open>nome\<close> for
  an object, \<open>notes\<close> is \<^verbatim>\<open>descricao\<close> and \<^verbatim>\<open>notas\<close>.
\<close>

definition matchesQuery :: "string \<Rightarrow> string \<Rightarrow> json option \<Rightarrow> json \<Rightarrow> error + bool" where
  "matchesQuery name notes query x =
     (if \<not> truthy query then Inr True
      else
        (case field_includes x name query of
           Inl e \<Rightarrow> Inl e
         | Inr True \<Rightarrow> Inr True
         | Inr False \<Rightarrow>
             (case field_includes x ''id'' query of
                Inl e \<Rightarrow> Inl e
              | Inr True \<Rightarrow> Inr True
              | Inr False \<Rightarrow>
                  (case get_prop x notes of
                     Inl e \<Rightarrow> Inl e
                   | Inr d \<Rightarrow> if \<not> truthy d then Inr False else field_includes x notes query))))"

text \<open>\<^verbatim>\<open>!filters.fkey || x.xkey === filters.fkey\<close>\<close>

definition matchesFilter :: "json \<Rightarrow> string \<Rightarrow> string \<Rightarrow> json \<Rightarrow> error + bool" where
  "matchesFilter filters fkey xkey x =
     (case get_prop filters fkey of
        Inl e \<Rightarrow> Inl e
      | Inr wanted \<Rightarrow>
          if \<not> truthy wanted then Inr True
          else (case get_prop x xkey of
                  Inl e \<Rightarrow> Inl e
                | Inr v \<Rightarrow> Inr (strict_eq v wanted)))"

text \<open>The callback of \<^verbatim>\<open>searchTasks\<close>: the four constants are computed in turn, then
  their conjunction is returned.\<close>

definition task_matches :: "json option \<Rightarrow> json \<Rightarrow> json \<Rightarrow> error + bool" where
  "task_matches query filters task =
     (case matchesQuery ''titulo'' ''descricao'' query task of
        Inl e \<Rightarrow> Inl e
      | Inr mq \<Rightarrow>
     (case matchesFilter filters ''status'' ''status'' task of
        Inl e \<Rightarrow> Inl e
      | Inr ms \<Rightarrow>
     (case matchesFilter filters ''priority'' ''prioridade'' task of
        Inl e \<Rightarrow> Inl e
      | Inr mp \<Rightarrow>
     (case matchesFilter filters ''category'' ''categoria'' task of
        Inl e \<Rightarrow> Inl e
      | Inr mc \<Rightarrow> Inr (mq \<and> ms \<and> mp \<and> mc)))))"

text \<open>The callback of \<^verbatim>\<open>searchObjects\<close>.\<close>

definition object_matches :: "json option \<Rightarrow> json \<Rightarrow> json \<Rightarrow> error + bool" where
  "object_matches query filters object =
     (case matchesQuery ''nome'' ''notas'' query object of
        Inl e \<Rightarrow> Inl e
      | Inr mq \<Rightarrow>
     (case matchesFilter filters ''type'' ''tipo'' object of
        Inl e \<Rightarrow> Inl e
      | Inr mt \<Rightarrow>
     (case matchesFilter filters ''status'' ''status'' object of
        Inl e \<Rightarrow> Inl e
      | Inr ms \<Rightarrow> Inr (mq \<and> mt \<and> ms))))"

text \<open>\<^verbatim>\<open>xs.filter(callback)\<close> for a callback that may throw.\<close>

fun filter_by :: "(json \<Rightarrow> error + bool) \<Rightarrow> json list \<Rightarrow> error + json list" where
  "filter_by p [] = Inr []"
| "filter_by p (x # xs) =
     (case p x of
        Inl e \<Rightarrow> Inl e
      | Inr keep \<Rightarrow>
          (case filter_by p xs of
             Inl e \<Rightarrow> Inl e
           | Inr rest \<Rightarrow> Inr (if keep then x # rest else rest)))"

text \<open>The default parameter \<^verbatim>\<open>filters = {}\<close> replaces \<^verbatim>\<open>undefined\<close> only.\<close>

definition default_filters :: "json option \<Rightarrow> json" where
  "default_filters filters = (case filters of None \<Rightarrow> JObj [] | Some v \<Rightarrow> v)"

definition searchTasks :: "faults \<Rightarrow> storage \<Rightarrow> json option \<Rightarrow> json option \<Rightarrow> error + json list" where
  "searchTasks f s query filters =
     (case getTasks f s of
        Inl e \<Rightarrow> Inl e
      | Inr tasks \<Rightarrow> filter_by (task_matches query (default_filters filters)) tasks)"

definition searchObjects :: "faults \<Rightarrow> storage \<Rightarrow> json option \<Rightarrow> json option \<Rightarrow> error + json list" where
  "searchObjects f s query filters =
     (case getObjects f s of
        Inl e \<Rightarrow> Inl e
      | Inr objects \<Rightarrow> filter_by (object_matches query (default_filters filters)) objects)"

section \<open>Notions the properties are stated with\<close>

text \<open>
  The backends work during a call: the key-value store reads, writes and removes, the
  indexed transaction opens, its store is cleared, and the indexed write either stores every
  record and completes, or fails at its first \<^verbatim>\<open>add\<close>, which leaves the store empty so that
  a later load falls back on the key-value copy. Reading the indexed store may still fail.
\<close>

definition storage_works :: "faults \<Rightarrow> bool" where
  "storage_works f =
     (\<not> ls_get_throws f \<and> \<not> ls_set_throws f \<and> \<not> ls_remove_throws f \<and>
      \<not> idb_tx_throws f \<and> \<not> idb_clear_rejects f \<and> \<not> idb_tx_errors f \<and>
      (case idb_add_throws f of None \<Rightarrow> True | Some k \<Rightarrow> k = 0))"

text \<open>A record carries the id \<open>i\<close>.\<close>

definition has_id :: "json option \<Rightarrow> json \<Rightarrow> bool" where
  "has_id i t = (case get_prop t ''id'' of Inl e \<Rightarrow> False | Inr a \<Rightarrow> strict_eq a i)"




text \<open>The value an import document provides for a resource: the one under the resource's
  key, when it is truthy.\<close>

definition imported_value :: "json \<Rightarrow> resource \<Rightarrow> json option" where
  "imported_value d r =
     (case get_prop d (resource_name r) of
        Inr (Some v) \<Rightarrow> if truthy (Some v) then Some v else None
      | _ \<Rightarrow> None)"

text \<open>A record's field is strictly equal to a value.\<close>

definition field_is :: "string \<Rightarrow> json option \<Rightarrow> json \<Rightarrow> bool" where
  "field_is k v t = (case get_prop t k of Inl e \<Rightarrow> False | Inr a \<Rightarrow> strict_eq a v)"



section \<open>Sample data\<close>

definition task_a :: json where
  "task_a = JObj [(''id'', JStr ''TSK001''), (''titulo'', JStr ''Mapear exits''),
     (''status'', JStr ''planejado'')]"

definition task_b :: json where
  "task_b = JObj [(''id'', JStr ''TSK002''), (''titulo'', JStr ''Converter relatorio''),
     (''status'', JStr ''concluido'')]"

text \<open>A key-value store that holds the given tasks and nothing else; no indexed database.\<close>

definition stored_tasks :: "json list \<Rightarrow> storage" where
  "stored_tasks xs = empty_storage\<lparr>localStorage :=
     (\<lambda>k. if k = keys Tasks then Some (JsonText (JArr xs)) else None)\<rparr>"

text \<open>A second record that carries the id of \<open>task_a\<close>.\<close>

definition task_a_again :: json where
  "task_a_again = JObj [(''id'', JStr ''TSK001''), (''titulo'', JStr ''Mapear exits (copia)''),
     (''status'', JStr ''planejado'')]"

definition zexit_first :: json where
  "zexit_first = JObj [(''id'', JStr ''ZEXIT01''), (''tipo'', JStr ''exit''),
     (''status'', JStr ''nao-analisado''), (''impacto'', JStr ''critico'')]"

definition zexit_second :: json where
  "zexit_second = JObj [(''id'', JStr ''ZEXIT01''), (''status'', JStr ''convertido'')]"

text \<open>Well-formed JSON of the wrong shape under the three collection keys.\<close>

definition wrong_shapes :: storage where
  "wrong_shapes = empty_storage\<lparr>localStorage :=
     (\<lambda>k. if k = keys Tasks then Some (JsonText (JObj [(''a'', JNum 1)]))
          else if k = keys Objects then Some (JsonText (JStr ''abc''))
          else if k = keys Requests then Some (JsonText (JNum 5))
          else None)\<rparr>"

text \<open>An open indexed database that holds one task, beside a key-value store whose tasks
  entry does not parse.\<close>

definition indexed_tasks :: storage where
  "indexed_tasks = \<lparr> localStorage = (\<lambda>k. if k = keys Tasks then Some BadText else None),
     db = Some (\<lambda>r. if r = Tasks then [task_a] else []), events = [] \<rparr>"







section \<open>Load and save: what a save leaves behind\<close>



lemma add_all_None: "idb_add_throws f = None \<Longrightarrow> add_all f i store items = (Inr (), store @ items)"
  by (induction items arbitrary: i store) auto

lemma add_all_first:
  "idb_add_throws f = Some 0 \<Longrightarrow>
   add_all f 0 [] items = (if items = [] then (Inr (), []) else (Inl IDBError, []))"
  by (cases items) auto

lemma keys_inj: "keys r = keys r' \<longleftrightarrow> r = r'"
  by (cases r; cases r'; simp)

lemma add_all_works:
  assumes "storage_works f"
  shows "add_all f 0 [] items = (Inr (), items) \<or> add_all f 0 [] items = (Inl IDBError, [])"
  using assms by (cases "idb_add_throws f") (auto simp: storage_works_def add_all_None add_all_first)

lemma saveData_no_db:
  "db s = None \<Longrightarrow> saveData f s r v =
     (Inr (), if ls_set_throws f then s
              else s\<lparr>localStorage := (localStorage s)(keys r := Some (JsonText v))\<rparr>)"
  by (simp add: saveData_def)

lemma saveData_not_collection:
  "\<not> is_collection r \<Longrightarrow> saveData f s r v =
     (Inr (), if ls_set_throws f then s
              else s\<lparr>localStorage := (localStorage s)(keys r := Some (JsonText v))\<rparr>)"
  by (simp add: saveData_def split: option.splits)

lemma saveData_indexed:
  assumes "db s = Some st" "is_collection r" "storage_works f"
  shows "\<exists>xs. (xs = array_items v \<or> xs = []) \<and> saveData f s r v =
     (Inr (), s\<lparr>localStorage := (localStorage s)(keys r := Some (JsonText v)),
                 db := Some (st(r := xs))\<rparr>)"
proof -
  from assms(3) have d: "\<not> ls_set_throws f" "\<not> idb_tx_throws f" "\<not> idb_clear_rejects f"
    "\<not> idb_tx_errors f"
    by (simp_all add: storage_works_def)
  from add_all_works[OF assms(3), of "array_items v"] show ?thesis
  proof
    assume a: "add_all f 0 [] (array_items v) = (Inr (), array_items v)"
    show ?thesis
      by (rule exI[of _ "array_items v"]) (simp add: saveData_def clearStore_def assms(1,2) d a)
  next
    assume a: "add_all f 0 [] (array_items v) = (Inl IDBError, [])"
    show ?thesis
      by (rule exI[of _ "[]"]) (simp add: saveData_def clearStore_def assms(1,2) d a)
  qed
qed

lemma saveData_works:
  assumes "storage_works f"
  shows "fst (saveData f s r v) = Inr ()"
proof (cases "db s")
  case None
  then show ?thesis by (simp add: saveData_no_db)
next
  case (Some st)
  show ?thesis
  proof (cases "is_collection r")
    case True
    from saveData_indexed[OF Some True assms, of v] show ?thesis by auto
  next
    case False
    then show ?thesis by (simp add: saveData_not_collection)
  qed
qed

lemma loadData_from_key_value:
  assumes "db s = None \<or> \<not> is_collection r \<or> (\<exists>st. db s = Some st \<and> st r = [])"
    and "\<not> ls_get_throws f" and "localStorage s (keys r) = Some (JsonText v)"
  shows "loadData f s r = Inr v"
  using assms by (auto simp: loadData_def getItem_def getFromIndexedDB_def split: option.splits)

lemma load_after_save:
  assumes "storage_works f" "\<not> ls_get_throws f'"
  shows "loadData f' (snd (saveData f s r v)) r = Inr v"
proof (cases "db s")
  case None
  with assms show ?thesis by (simp add: saveData_no_db storage_works_def loadData_from_key_value)
next
  case (Some st)
  show ?thesis
  proof (cases "is_collection r")
    case True
    from saveData_indexed[OF Some True assms(1), of v] obtain xs where
      xs: "xs = array_items v \<or> xs = []" and
      sv: "saveData f s r v =
        (Inr (), s\<lparr>localStorage := (localStorage s)(keys r := Some (JsonText v)),
                    db := Some (st(r := xs))\<rparr>)"
      by blast
    show ?thesis
    proof (cases "xs = []")
      case True
      then show ?thesis using assms(2) by (simp add: sv loadData_from_key_value)
    next
      case False
      with xs have "xs = array_items v" by simp
      with False have "v = JArr xs"
        by (cases v) (auto simp: array_items_def)
      with False assms(2) True show ?thesis
        unfolding sv by (simp add: loadData_def getItem_def getFromIndexedDB_def)
    qed
  next
    case False
    with assms show ?thesis
      by (simp add: saveData_not_collection storage_works_def loadData_from_key_value)
  qed
qed

lemma getItem_dispatchEvent [simp]: "getItem f (dispatchEvent s n d) k = getItem f s k"
  by (simp add: dispatchEvent_def getItem_def)

lemma db_dispatchEvent [simp]: "db (dispatchEvent s n d) = db s"
  by (simp add: dispatchEvent_def)

lemma loadData_dispatchEvent [simp]: "loadData f (dispatchEvent s n d) r = loadData f s r"
  by (simp add: loadData_def cong: option.case_cong)

lemma getCollection_dispatchEvent [simp]:
  "getCollection f (dispatchEvent s n d) r = getCollection f s r"
  by (simp add: getCollection_def)

lemma getCollection_after_save:
  assumes "storage_works f" "\<not> ls_get_throws f'"
  shows "getCollection f' (snd (saveData f s r (JArr xs))) r = Inr xs"
  using load_after_save[OF assms, of s r "JArr xs"] by (simp add: getCollection_def array_items_def)

section \<open>Upsert and lookup\<close>

lemma get_prop_total: "t \<noteq> JNull \<Longrightarrow> \<exists>a. get_prop t k = Inr a"
  by (cases t) auto

lemma find_after_upsert:
  assumes "get_prop x ''id'' = Inr b" "strict_eq b b" "JNull \<notin> set xs"
  shows "\<exists>r. findIndex_id xs x = Inr r \<and>
     find_id (case r of Some i \<Rightarrow> xs[i := x] | None \<Rightarrow> xs @ [x]) b = Inr (Some x)"
  using assms(3)
proof (induction xs)
  case Nil
  then show ?case using assms(1,2) by simp
next
  case (Cons t ts)
  then have "t \<noteq> JNull" by auto
  then obtain a where a: "get_prop t ''id'' = Inr a" using get_prop_total by blast
  show ?case
  proof (cases "strict_eq a b")
    case True
    then show ?thesis using a assms(1,2) by simp
  next
    case False
    from Cons obtain r where r: "findIndex_id ts x = Inr r"
      "find_id (case r of Some i \<Rightarrow> ts[i := x] | None \<Rightarrow> ts @ [x]) b = Inr (Some x)"
      by auto
    then show ?thesis using a assms(1) False by (cases r) simp_all
  qed
qed

lemma upsert_works:
  assumes "storage_works f" "getCollection f s r = Inr xs" "findIndex_id xs x = Inr ix"
  shows "upsert f s r n x =
    (Inr x, dispatchEvent
       (snd (saveData f s r (JArr (case ix of Some i \<Rightarrow> xs[i := x] | None \<Rightarrow> xs @ [x]))))
       n (Some (JArr (case ix of Some i \<Rightarrow> xs[i := x] | None \<Rightarrow> xs @ [x]))))"
proof -
  let ?xs' = "case ix of Some i \<Rightarrow> xs[i := x] | None \<Rightarrow> xs @ [x]"
  have "fst (saveData f s r (JArr ?xs')) = Inr ()" using assms(1) by (rule saveData_works)
  then obtain s1 where "saveData f s r (JArr ?xs') = (Inr (), s1)"
    by (cases "saveData f s r (JArr ?xs')") auto
  then show ?thesis using assms(2,3) by (simp add: upsert_def Let_def)
qed

text \<open>
  C1. While the backends work, for every task record \<open>T\<close> whose id is a string and every
  prior collection of records (no \<^verbatim>\<open>null\<close> entry), \<^verbatim>\<open>saveTask(T)\<close> returns \<open>T\<close> and a
  following \<^verbatim>\<open>getTaskById(T.id)\<close> returns a record equal to \<open>T\<close>.
\<close>

theorem saveTask_then_getTaskById:
  assumes "storage_works f" and "storage_works f'"
    and "get_prop T ''id'' = Inr (Some (JStr i))"
    and "getTasks f s = Inr tasks" and "JNull \<notin> set tasks"
  shows "fst (saveTask f s T) = Inr T \<and>
         getTaskById f' (snd (saveTask f s T)) (Some (JStr i)) = Inr (Some T)"
proof -
  from find_after_upsert[OF assms(3) _ assms(5)] obtain ix where
    ix: "findIndex_id tasks T = Inr ix" and
    fnd: "find_id (case ix of Some i \<Rightarrow> tasks[i := T] | None \<Rightarrow> tasks @ [T]) (Some (JStr i))
            = Inr (Some T)"
    by auto
  have gc: "getCollection f s Tasks = Inr tasks" using assms(4) by (simp add: getTasks_def)
  have r: "\<not> ls_get_throws f'" using assms(2) by (simp add: storage_works_def)
  show ?thesis
    unfolding saveTask_def getTaskById_def get_by_id_def upsert_works[OF assms(1) gc ix]
    by (simp add: getCollection_after_save[OF assms(1) r] fnd)
qed

lemma storage_works_no_faults: "storage_works no_faults"
  by (simp add: storage_works_def no_faults_def)

lemma getTasks_stored: "getTasks no_faults (stored_tasks xs) = Inr xs"
  by (simp add: getTasks_def getCollection_def loadData_def stored_tasks_def empty_storage_def
      getItem_def no_faults_def array_items_def)

lemma getTasks_indexed:
  "\<not> idb_getAll_rejects f \<Longrightarrow> getTasks f indexed_tasks = Inr [task_a]"
  by (simp add: getTasks_def getCollection_def loadData_def indexed_tasks_def
      getFromIndexedDB_def is_collection_def array_items_def)

text \<open>Two instances: the key-value store alone, and an open indexed database whose first
  \<^verbatim>\<open>add\<close> throws.\<close>

theorem saveTask_then_getTaskById_witness:
  "storage_works no_faults \<and> storage_works (no_faults\<lparr>idb_add_throws := Some 0\<rparr>) \<and>
   get_prop task_b ''id'' = Inr (Some (JStr ''TSK002'')) \<and>
   getTasks no_faults (stored_tasks [task_a]) = Inr [task_a] \<and> JNull \<notin> set [task_a] \<and>
   fst (saveTask no_faults (stored_tasks [task_a]) task_b) = Inr task_b \<and>
   getTaskById no_faults (snd (saveTask no_faults (stored_tasks [task_a]) task_b))
     (Some (JStr ''TSK002'')) = Inr (Some task_b) \<and>
   getTasks (no_faults\<lparr>idb_add_throws := Some 0\<rparr>) indexed_tasks = Inr [task_a] \<and>
   fst (saveTask (no_faults\<lparr>idb_add_throws := Some 0\<rparr>) indexed_tasks task_b) = Inr task_b \<and>
   getTaskById no_faults (snd (saveTask (no_faults\<lparr>idb_add_throws := Some 0\<rparr>) indexed_tasks task_b))
     (Some (JStr ''TSK002'')) = Inr (Some task_b)"
proof -
  have 1: "storage_works no_faults" by (rule storage_works_no_faults)
  have w0: "storage_works (no_faults\<lparr>idb_add_throws := Some 0\<rparr>)"
    by (simp add: storage_works_def no_faults_def)
  have 2: "get_prop task_b ''id'' = Inr (Some (JStr ''TSK002''))" by (simp add: task_b_def)
  have 3: "getTasks no_faults (stored_tasks [task_a]) = Inr [task_a]" by (rule getTasks_stored)
  have g0: "getTasks (no_faults\<lparr>idb_add_throws := Some 0\<rparr>) indexed_tasks = Inr [task_a]"
    by (rule getTasks_indexed) (simp add: no_faults_def)
  have 4: "JNull \<notin> set [task_a]" by (simp add: task_a_def)
  from saveTask_then_getTaskById[OF 1 1 2 3 4] saveTask_then_getTaskById[OF w0 1 2 g0 4]
    1 w0 2 3 g0 4
  show ?thesis by blast
qed

section \<open>Deleting\<close>







section \<open>Upsert keeps an id unique\<close>

lemma has_id_self: "get_prop x ''id'' = Inr b \<Longrightarrow> strict_eq b b \<Longrightarrow> has_id b x"
  by (simp add: has_id_def)

lemma upsert_list_filter:
  assumes "get_prop x ''id'' = Inr b" "strict_eq b b" "JNull \<notin> set xs"
  shows "\<exists>ix. findIndex_id xs x = Inr ix \<and>
     filter (has_id b) (case ix of Some i \<Rightarrow> xs[i := x] | None \<Rightarrow> xs @ [x])
       = x # tl (filter (has_id b) xs) \<and>
     filter (\<lambda>t. \<not> has_id b t) (case ix of Some i \<Rightarrow> xs[i := x] | None \<Rightarrow> xs @ [x])
       = filter (\<lambda>t. \<not> has_id b t) xs \<and>
     JNull \<notin> set (case ix of Some i \<Rightarrow> xs[i := x] | None \<Rightarrow> xs @ [x])"
  using assms(3)
proof (induction xs)
  case Nil
  have "x \<noteq> JNull" using assms(1) by auto
  then show ?case using assms(1,2) by (simp add: has_id_self)
next
  case (Cons t ts)
  have xn: "x \<noteq> JNull" using assms(1) by auto
  from Cons have "t \<noteq> JNull" by auto
  then obtain a where a: "get_prop t ''id'' = Inr a" using get_prop_total by blast
  show ?case
  proof (cases "strict_eq a b")
    case True
    then have ht: "has_id b t" using a by (simp add: has_id_def)
    have hx: "has_id b x" using assms(1,2) by (rule has_id_self)
    show ?thesis using a assms(1) True Cons.prems xn ht hx by simp
  next
    case False
    then have nt: "\<not> has_id b t" using a by (simp add: has_id_def)
    from Cons obtain ix where ix: "findIndex_id ts x = Inr ix"
      "filter (has_id b) (case ix of Some i \<Rightarrow> ts[i := x] | None \<Rightarrow> ts @ [x]) = x # tl (filter (has_id b) ts)"
      "filter (\<lambda>t. \<not> has_id b t) (case ix of Some i \<Rightarrow> ts[i := x] | None \<Rightarrow> ts @ [x]) = filter (\<lambda>t. \<not> has_id b t) ts"
      "JNull \<notin> set (case ix of Some i \<Rightarrow> ts[i := x] | None \<Rightarrow> ts @ [x])"
      by auto
    then show ?thesis using a assms(1) False nt \<open>t \<noteq> JNull\<close> by (cases ix) simp_all
  qed
qed

lemma upsert_collection:
  assumes "storage_works f" "storage_works f'" "get_prop x ''id'' = Inr b" "strict_eq b b"
    and "getCollection f s r = Inr xs" "JNull \<notin> set xs"
  shows "\<exists>ys. fst (upsert f s r n x) = Inr x \<and>
     getCollection f' (snd (upsert f s r n x)) r = Inr ys \<and>
     filter (has_id b) ys = x # tl (filter (has_id b) xs) \<and>
     filter (\<lambda>t. \<not> has_id b t) ys = filter (\<lambda>t. \<not> has_id b t) xs \<and>
     JNull \<notin> set ys"
proof -
  from upsert_list_filter[OF assms(3,4,6)] obtain ix where
    ix: "findIndex_id xs x = Inr ix" and
    p: "filter (has_id b) (case ix of Some i \<Rightarrow> xs[i := x] | None \<Rightarrow> xs @ [x]) = x # tl (filter (has_id b) xs)"
      "filter (\<lambda>t. \<not> has_id b t) (case ix of Some i \<Rightarrow> xs[i := x] | None \<Rightarrow> xs @ [x]) = filter (\<lambda>t. \<not> has_id b t) xs"
      "JNull \<notin> set (case ix of Some i \<Rightarrow> xs[i := x] | None \<Rightarrow> xs @ [x])"
    by blast
  have r: "\<not> ls_get_throws f'" using assms(2) by (simp add: storage_works_def)
  show ?thesis
    apply (rule exI[of _ "case ix of Some i \<Rightarrow> xs[i := x] | None \<Rightarrow> xs @ [x]"])
    unfolding upsert_works[OF assms(1,5) ix]
    using p by (simp add: getCollection_after_save[OF assms(1) r])
qed

text \<open>
  C6. While the backends work, take two objects with the same string id and a collection of
  records in which that id occurs at most once. After \<^verbatim>\<open>saveObject\<close> of the first, the
  collection has exactly one record with the id, the first object; after \<^verbatim>\<open>saveObject\<close>
  of the second it has exactly one, the second object, and the records with other ids are
  the ones it had at the start.
\<close>

theorem saveObject_replaces:
  assumes "storage_works f1" and "storage_works f2" and "storage_works f3"
    and "get_prop object1 ''id'' = Inr (Some (JStr i))"
    and "get_prop object2 ''id'' = Inr (Some (JStr i))"
    and "getObjects f1 s = Inr objects" and "JNull \<notin> set objects"
    and "length (filter (has_id (Some (JStr i))) objects) \<le> 1"
  shows "\<exists>once twice.
     getObjects f2 (snd (saveObject f1 s object1)) = Inr once \<and>
     filter (has_id (Some (JStr i))) once = [object1] \<and>
     getObjects f3 (snd (saveObject f2 (snd (saveObject f1 s object1)) object2)) = Inr twice \<and>
     filter (has_id (Some (JStr i))) twice = [object2] \<and>
     filter (\<lambda>t. \<not> has_id (Some (JStr i)) t) twice = filter (\<lambda>t. \<not> has_id (Some (JStr i)) t) objects"
proof -
  let ?b = "Some (JStr i)"
  have gc: "getCollection f1 s Objects = Inr objects" using assms(6) by (simp add: getObjects_def)
  have tl0: "tl (filter (has_id ?b) objects) = []"
    using assms(8) by (cases "filter (has_id ?b) objects") auto
  from upsert_collection[OF assms(1,2,4) _ gc assms(7), of "''objectsUpdated''"] obtain once where
    o: "getCollection f2 (snd (saveObject f1 s object1)) Objects = Inr once"
      "filter (has_id ?b) once = object1 # tl (filter (has_id ?b) objects)"
      "filter (\<lambda>t. \<not> has_id ?b t) once = filter (\<lambda>t. \<not> has_id ?b t) objects"
      "JNull \<notin> set once"
    unfolding saveObject_def by auto
  from upsert_collection[OF assms(2,3,5) _ o(1) o(4), of "''objectsUpdated''"] obtain twice where
    t: "getCollection f3 (snd (saveObject f2 (snd (saveObject f1 s object1)) object2)) Objects = Inr twice"
      "filter (has_id ?b) twice = object2 # tl (filter (has_id ?b) once)"
      "filter (\<lambda>t. \<not> has_id ?b t) twice = filter (\<lambda>t. \<not> has_id ?b t) once"
    unfolding saveObject_def by auto
  show ?thesis
    apply (rule exI[of _ once], rule exI[of _ twice])
    using o t tl0 by (simp add: getObjects_def)
qed


lemma only_matches:
  assumes "filter (\<lambda>t. \<not> P t) xs = []"
  shows "filter P xs = xs"
  using assms by (induction xs) (auto split: if_splits)

lemma getObjects_empty: "getObjects no_faults empty_storage = Inr []"
  by (simp add: getObjects_def getCollection_def loadData_def empty_storage_def getItem_def
      no_faults_def array_items_def)

text \<open>The example of the claim, from the empty store: one object ZEXIT01 is stored, and its
  status is "convertido".\<close>

theorem saveObject_replaces_witness:
  "storage_works no_faults \<and>
   get_prop zexit_first ''id'' = Inr (Some (JStr ''ZEXIT01'')) \<and>
   get_prop zexit_second ''id'' = Inr (Some (JStr ''ZEXIT01'')) \<and>
   getObjects no_faults empty_storage = Inr [] \<and>
   getObjects no_faults
     (snd (saveObject no_faults (snd (saveObject no_faults empty_storage zexit_first)) zexit_second))
     = Inr [zexit_second] \<and>
   get_prop zexit_second ''status'' = Inr (Some (JStr ''convertido''))"
proof -
  have 1: "storage_works no_faults" by (rule storage_works_no_faults)
  have 2: "get_prop zexit_first ''id'' = Inr (Some (JStr ''ZEXIT01''))"
    by (simp add: zexit_first_def)
  have 3: "get_prop zexit_second ''id'' = Inr (Some (JStr ''ZEXIT01''))"
    by (simp add: zexit_second_def)
  have 4: "getObjects no_faults empty_storage = Inr []" by (rule getObjects_empty)
  have 5: "JNull \<notin> set []" by simp
  have 6: "length (filter (has_id (Some (JStr ''ZEXIT01''))) []) \<le> 1" by simp
  from saveObject_replaces[OF 1 1 1 2 3 4 5 6] obtain twice where
    t: "getObjects no_faults
          (snd (saveObject no_faults (snd (saveObject no_faults empty_storage zexit_first)) zexit_second))
          = Inr twice"
       "filter (has_id (Some (JStr ''ZEXIT01''))) twice = [zexit_second]"
       "filter (\<lambda>t. \<not> has_id (Some (JStr ''ZEXIT01'')) t) twice = []"
    by auto
  from only_matches[OF t(3)] t(2) have "twice = [zexit_second]" by simp
  with t(1) 1 2 3 4 show ?thesis by (simp add: zexit_second_def)
qed

section \<open>Loading\<close>

text \<open>
  C9. \<^verbatim>\<open>loadData\<close> returns the indexed store of a collection resource when the database
  is open, the read succeeds and the store is non-empty. In every other case it returns what
  the key-value entry parses to, and the resource's default when the entry is missing, empty
  or does not parse, or when reading it throws. The defaults are the empty list for the
  three collections and the two fixed objects for profile and settings.
\<close>

theorem loadData_order:
  "(is_collection r \<and> db s = Some st \<and> \<not> idb_getAll_rejects f \<and> st r \<noteq> []
      \<longrightarrow> loadData f s r = Inr (JArr (st r))) \<and>
   (db s = None \<or> \<not> is_collection r \<or> idb_getAll_rejects f \<or> (db s = Some st \<and> st r = [])
      \<longrightarrow> loadData f s r =
           Inr (case (if ls_get_throws f then None else localStorage s (keys r)) of
                  Some (JsonText v) \<Rightarrow> v
                | _ \<Rightarrow> getDefaultData r)) \<and>
   getDefaultData Tasks = JArr [] \<and> getDefaultData Objects = JArr [] \<and>
   getDefaultData Requests = JArr [] \<and>
   getDefaultData Profile = JObj [(''nome'', JStr ''''), (''empresa'', JStr ''''),
     (''inicioProject'', JStr ''''), (''cliente'', JStr ''''),
     (''avatar'', JStr [CHR 0xF0, CHR 0x9F, CHR 0x9A, CHR 0x80])] \<and>
   getDefaultData Settings = JObj [(''theme'', JStr ''light''), (''notifications'', JBool True),
     (''autoSave'', JBool True), (''language'', JStr ''pt-BR'')]"
proof -
  have 1: "is_collection r \<and> db s = Some st \<and> \<not> idb_getAll_rejects f \<and> st r \<noteq> []
      \<longrightarrow> loadData f s r = Inr (JArr (st r))"
    by (simp add: loadData_def getFromIndexedDB_def)
  have 2: "db s = None \<or> \<not> is_collection r \<or> idb_getAll_rejects f \<or> (db s = Some st \<and> st r = [])
      \<longrightarrow> loadData f s r =
           Inr (case (if ls_get_throws f then None else localStorage s (keys r)) of
                  Some (JsonText v) \<Rightarrow> v
                | _ \<Rightarrow> getDefaultData r)"
    by (auto simp: loadData_def getFromIndexedDB_def getItem_def split: option.splits stored.splits)
  from 1 2 show ?thesis by simp
qed

theorem loadData_order_witness:
  "loadData no_faults indexed_tasks Tasks = Inr (JArr [task_a]) \<and>
   loadData (no_faults\<lparr>idb_getAll_rejects := True\<rparr>) indexed_tasks Tasks = Inr (JArr []) \<and>
   loadData no_faults indexed_tasks Objects = Inr (JArr []) \<and>
   loadData no_faults (stored_tasks [task_b]) Tasks = Inr (JArr [task_b])"
proof -
  have a: "is_collection Tasks" "is_collection Objects" by (simp_all add: is_collection_def)
  have d: "db indexed_tasks = Some (\<lambda>r. if r = Tasks then [task_a] else [])"
    by (simp add: indexed_tasks_def)
  have n: "\<not> idb_getAll_rejects no_faults" "idb_getAll_rejects (no_faults\<lparr>idb_getAll_rejects := True\<rparr>)"
    by (simp_all add: no_faults_def)
  have e: "db (stored_tasks [task_b]) = None" by (simp add: stored_tasks_def empty_storage_def)
  show ?thesis
    using loadData_order[of Tasks indexed_tasks "\<lambda>r. if r = Tasks then [task_a] else []" no_faults]
      loadData_order[of Tasks indexed_tasks "\<lambda>r. if r = Tasks then [task_a] else []" "no_faults\<lparr>idb_getAll_rejects := True\<rparr>"]
      loadData_order[of Objects indexed_tasks "\<lambda>r. if r = Tasks then [task_a] else []" no_faults]
      loadData_order[of Tasks "stored_tasks [task_b]" "\<lambda>r. []" no_faults]
      a d n e
    by (simp add: indexed_tasks_def stored_tasks_def empty_storage_def no_faults_def)
qed


text \<open>
  C10. Whatever \<^verbatim>\<open>loadData\<close> yields for a collection resource, the getter returns an
  array: the loaded array itself, and the empty array for every other value.
\<close>

theorem getters_return_arrays:
  assumes "loadData f s Tasks = Inr vt" and "loadData f s Objects = Inr vo"
    and "loadData f s Requests = Inr vr"
  shows "getTasks f s = Inr (case vt of JArr xs \<Rightarrow> xs | _ \<Rightarrow> []) \<and>
         getObjects f s = Inr (case vo of JArr xs \<Rightarrow> xs | _ \<Rightarrow> []) \<and>
         getRequests f s = Inr (case vr of JArr xs \<Rightarrow> xs | _ \<Rightarrow> [])"
  using assms
  by (simp add: getTasks_def getObjects_def getRequests_def getCollection_def array_items_def)

lemma loadData_wrong_shapes:
  "loadData no_faults wrong_shapes Tasks = Inr (JObj [(''a'', JNum 1)])"
  "loadData no_faults wrong_shapes Objects = Inr (JStr ''abc'')"
  "loadData no_faults wrong_shapes Requests = Inr (JNum 5)"
  by (simp_all add: loadData_def wrong_shapes_def empty_storage_def getItem_def no_faults_def)

theorem getters_return_arrays_witness:
  "loadData no_faults wrong_shapes Tasks = Inr (JObj [(''a'', JNum 1)]) \<and>
   loadData no_faults wrong_shapes Objects = Inr (JStr ''abc'') \<and>
   loadData no_faults wrong_shapes Requests = Inr (JNum 5) \<and>
   getTasks no_faults wrong_shapes = Inr [] \<and>
   getObjects no_faults wrong_shapes = Inr [] \<and>
   getRequests no_faults wrong_shapes = Inr []"
  using getters_return_arrays[OF loadData_wrong_shapes] loadData_wrong_shapes by simp

section \<open>A save touches one resource only\<close>

lemma loadData_cong:
  assumes "localStorage s' (keys r) = localStorage s (keys r)"
    and "is_collection r \<Longrightarrow> map_option (\<lambda>st. st r) (db s') = map_option (\<lambda>st. st r) (db s)"
  shows "loadData f s' r = loadData f s r"
proof (cases "is_collection r")
  case True
  with assms show ?thesis
    by (cases "db s"; cases "db s'") (simp_all add: loadData_def getItem_def getFromIndexedDB_def)
next
  case False
  with assms(1) show ?thesis
    by (cases "db s"; cases "db s'") (simp_all add: loadData_def getItem_def)
qed

lemma saveData_frame_state:
  "\<exists>ls' d'. snd (saveData f s r v) = s\<lparr>localStorage := ls', db := d'\<rparr> \<and>
     (\<forall>k. k \<noteq> keys r \<longrightarrow> ls' k = localStorage s k) \<and>
     (\<forall>r'. r' \<noteq> r \<longrightarrow> map_option (\<lambda>st. st r') d' = map_option (\<lambda>st. st r') (db s))"
proof -
  let ?s1 = "if ls_set_throws f then s else s\<lparr>localStorage := (localStorage s)(keys r := Some (JsonText v))\<rparr>"
  have s1: "\<exists>ls'. ?s1 = s\<lparr>localStorage := ls'\<rparr> \<and> (\<forall>k. k \<noteq> keys r \<longrightarrow> ls' k = localStorage s k)"
    by (cases "ls_set_throws f") (auto intro: exI[of _ "localStorage s"])
  then obtain ls' where ls': "?s1 = s\<lparr>localStorage := ls'\<rparr>" "\<forall>k. k \<noteq> keys r \<longrightarrow> ls' k = localStorage s k"
    by blast
  show ?thesis
  proof (cases "db s")
    case None
    then have "snd (saveData f s r v) = s\<lparr>localStorage := ls', db := db s\<rparr>"
      using ls'(1) by (simp add: saveData_no_db)
    with ls'(2) show ?thesis by blast
  next
    case (Some st)
    obtain res added where aa: "add_all f 0 [] (array_items v) = (res, added)"
      by (cases "add_all f 0 [] (array_items v)") auto
    have "snd (saveData f s r v) = s\<lparr>localStorage := ls', db := db s\<rparr> \<or>
          snd (saveData f s r v) = s\<lparr>localStorage := ls', db := Some (st(r := []))\<rparr> \<or>
          snd (saveData f s r v) = s\<lparr>localStorage := ls', db := Some (st(r := added))\<rparr>"
      using ls'(1) Some aa
      by (cases "ls_set_throws f"; cases res)
         (auto simp: saveData_def clearStore_def Let_def)
    then show ?thesis using ls'(2) Some by (elim disjE) (rule exI, rule exI, (rule conjI, assumption), simp)+
  qed
qed

lemma load_save_other:
  assumes "r' \<noteq> r"
  shows "loadData f' (snd (saveData f s r v)) r' = loadData f' s r'"
proof -
  from saveData_frame_state[of f s r v] obtain ls' d' where
    st: "snd (saveData f s r v) = s\<lparr>localStorage := ls', db := d'\<rparr>"
    and ls: "\<forall>k. k \<noteq> keys r \<longrightarrow> ls' k = localStorage s k"
    and d: "\<forall>r'. r' \<noteq> r \<longrightarrow> map_option (\<lambda>st. st r') d' = map_option (\<lambda>st. st r') (db s)"
    by blast
  show ?thesis unfolding st
    by (rule loadData_cong) (use assms ls d in \<open>simp_all add: keys_inj\<close>)
qed


section \<open>Import\<close>

lemma import_resource_works:
  assumes "storage_works f" "d \<noteq> JNull"
  shows "import_resource f s (Some d) r =
     (Inr (), case imported_value d r of Some v \<Rightarrow> snd (saveData f s r v) | None \<Rightarrow> s)"
proof -
  from assms(2) obtain a where a: "get_prop d (resource_name r) = Inr a"
    using get_prop_total by blast
  show ?thesis
  proof (cases a)
    case None
    with a show ?thesis by (simp add: import_resource_def imported_value_def)
  next
    case (Some v)
    have "saveData f s r v = (Inr (), snd (saveData f s r v))"
      using saveData_works[OF assms(1), of s r v] by (cases "saveData f s r v") simp
    with a Some show ?thesis by (simp add: import_resource_def imported_value_def)
  qed
qed

lemma load_import_resource:
  assumes "storage_works f" "\<not> ls_get_throws f'" "d \<noteq> JNull"
  shows "loadData f' (snd (import_resource f s (Some d) r0)) r =
     (case (if r = r0 then imported_value d r else None) of
        Some v \<Rightarrow> Inr v | None \<Rightarrow> loadData f' s r)"
  unfolding import_resource_works[OF assms(1,3)]
  by (cases "imported_value d r0")
     (simp_all add: load_after_save[OF assms(1,2)] load_save_other)

lemma import_all_works:
  assumes "storage_works f" "\<not> ls_get_throws f'" "d \<noteq> JNull"
  shows "fst (import_all f s (Some d) rs) = Inr () \<and>
     loadData f' (snd (import_all f s (Some d) rs)) r =
       (case (if r \<in> set rs then imported_value d r else None) of
          Some v \<Rightarrow> Inr v | None \<Rightarrow> loadData f' s r)"
proof (induction rs arbitrary: s)
  case Nil
  then show ?case by simp
next
  case (Cons r0 rs)
  let ?s1 = "snd (import_resource f s (Some d) r0)"
  have step: "import_resource f s (Some d) r0 = (Inr (), ?s1)"
    by (simp add: import_resource_works[OF assms(1,3)])
  have unf: "import_all f s (Some d) (r0 # rs) = import_all f ?s1 (Some d) rs"
    by (subst import_all.simps(2), subst step) simp
  show ?case
    unfolding unf using Cons.IH[of ?s1] load_import_resource[OF assms, of s r0 r]
    by (auto split: option.splits if_splits)
qed

lemma importData_works:
  assumes "storage_works f" "\<not> ls_get_throws f'" "d \<noteq> JNull"
  shows "fst (importData f s (FromString (JsonText d))) = Inr (Success ''Dados importados com sucesso!'')"
    and "loadData f' (snd (importData f s (FromString (JsonText d)))) r =
       (case imported_value d r of Some v \<Rightarrow> Inr v | None \<Rightarrow> loadData f' s r)"
proof -
  let ?rs = "[Profile, Settings, Tasks, Objects, Requests]"
  obtain s1 where s1: "import_all f s (Some d) ?rs = (Inr (), s1)"
    using import_all_works[OF assms, of s ?rs] by (cases "import_all f s (Some d) ?rs") auto
  have i: "importData f s (FromString (JsonText d)) =
      (Inr (Success ''Dados importados com sucesso!''), dispatchEvent s1 ''dataImported'' (Some d))"
    using s1 by (simp add: importData_def parse_import_def)
  show "fst (importData f s (FromString (JsonText d))) = Inr (Success ''Dados importados com sucesso!'')"
    by (simp add: i)
  have m: "r \<in> set ?rs" by (cases r) simp_all
  from import_all_works[OF assms, of s ?rs r] s1 m
  show "loadData f' (snd (importData f s (FromString (JsonText d)))) r =
       (case imported_value d r of Some v \<Rightarrow> Inr v | None \<Rightarrow> loadData f' s r)"
    by (simp add: i del: set_simps)
qed






text \<open>A collection with a repeated id is a state the manager reaches by itself: an import
  stores any array.\<close>

lemma duplicates_reachable_by_import:
  "getTasks no_faults (snd (importData no_faults empty_storage
     (FromString (JsonText (JObj [(''tasks'', JArr [task_a, task_a_again, task_b])])))))
   = Inr [task_a, task_a_again, task_b]"
proof -
  have r: "\<not> ls_get_throws no_faults" by (simp add: no_faults_def)
  have n: "JObj [(''tasks'', JArr [task_a, task_a_again, task_b])] \<noteq> JNull" by simp
  have v: "imported_value (JObj [(''tasks'', JArr [task_a, task_a_again, task_b])]) Tasks
      = Some (JArr [task_a, task_a_again, task_b])"
    by (simp add: imported_value_def)
  from importData_works(2)[OF storage_works_no_faults r n, of empty_storage Tasks] v
  show ?thesis by (simp add: getTasks_def getCollection_def array_items_def)
qed

section \<open>Export, clear, import\<close>












section \<open>Failures\<close>

text \<open>The one failure of a save that is not swallowed: the transaction ends with its error
  event, and the promise that \<^verbatim>\<open>saveData\<close> returned rejects.\<close>

lemma saveData_transaction_error:
  "fst (saveData (no_faults\<lparr>idb_tx_errors := True\<rparr>) indexed_tasks Tasks (JArr [task_b]))
     = Inl IDBError"
  by (simp add: saveData_def clearStore_def indexed_tasks_def no_faults_def is_collection_def
      array_items_def)











section \<open>Search\<close>

lemma filter_by_total:
  assumes "\<forall>x\<in>set xs. \<exists>b. p x = Inr b"
  shows "filter_by p xs = Inr (filter (\<lambda>x. p x = Inr True) xs)"
  using assms by (induction xs) auto

lemma filter_by_Inr:
  assumes "filter_by p xs = Inr ys"
  shows "(\<forall>x\<in>set xs. \<exists>b. p x = Inr b) \<and> ys = filter (\<lambda>x. p x = Inr True) xs"
  using assms
proof (induction xs arbitrary: ys)
  case Nil
  then show ?case by simp
next
  case (Cons x xs)
  from Cons.prems obtain keep where k: "p x = Inr keep"
    by (cases "p x") auto
  from Cons.prems k obtain rest where r: "filter_by p xs = Inr rest"
    by (cases "filter_by p xs") auto
  from Cons.IH[OF r] Cons.prems k r show ?case by auto
qed

lemma matchesFilter_empty [simp]: "matchesFilter (JObj []) fk xk t = Inr True"
  by (simp add: matchesFilter_def)

lemma matchesQuery_no_query: "\<not> truthy q \<Longrightarrow> matchesQuery a b q t = Inr True"
  by (simp add: matchesQuery_def)

lemma task_matches_query_only:
  "task_matches q (JObj []) t =
     (case matchesQuery ''titulo'' ''descricao'' q t of Inl e \<Rightarrow> Inl e | Inr mq \<Rightarrow> Inr mq)"
  by (simp add: task_matches_def split: sum.splits)

lemma task_matches_filters_only:
  "\<not> truthy q \<Longrightarrow> task_matches q flt t =
     (case matchesFilter flt ''status'' ''status'' t of Inl e \<Rightarrow> Inl e | Inr ms \<Rightarrow>
      case matchesFilter flt ''priority'' ''prioridade'' t of Inl e \<Rightarrow> Inl e | Inr mp \<Rightarrow>
      case matchesFilter flt ''category'' ''categoria'' t of Inl e \<Rightarrow> Inl e | Inr mc \<Rightarrow>
        Inr (ms \<and> mp \<and> mc))"
  by (simp add: task_matches_def matchesQuery_no_query split: sum.splits)

lemma task_matches_both:
  assumes "task_matches q (JObj []) t = Inr bq" "task_matches None flt t = Inr bf"
  shows "task_matches q flt t = Inr (bq \<and> bf)"
proof -
  have n: "matchesQuery ''titulo'' ''descricao'' None t = Inr True"
    by (simp add: matchesQuery_no_query)
  from assms show ?thesis
    by (auto simp: task_matches_def n split: sum.splits)
qed

lemma task_matches_status_only:
  assumes "t \<noteq> JNull" "\<not> truthy q"
    and "get_prop fl ''status'' = Inr (Some w)" "truthy (Some w)"
    and "get_prop fl ''priority'' = Inr pv" "\<not> truthy pv"
    and "get_prop fl ''category'' = Inr cv" "\<not> truthy cv"
  shows "task_matches q fl t = Inr (field_is ''status'' (Some w) t)"
proof -
  from assms(1) obtain a where a: "get_prop t ''status'' = Inr a" using get_prop_total by blast
  have s: "matchesFilter fl ''status'' ''status'' t = Inr (field_is ''status'' (Some w) t)"
    using a assms(3,4) by (simp add: matchesFilter_def field_is_def)
  have p: "matchesFilter fl ''priority'' ''prioridade'' t = Inr True"
    using assms(5,6) by (simp add: matchesFilter_def)
  have c: "matchesFilter fl ''category'' ''categoria'' t = Inr True"
    using assms(7,8) by (simp add: matchesFilter_def)
  show ?thesis by (simp add: task_matches_filters_only[OF assms(2)] s p c)
qed

text \<open>
  C8, as the code has it. With no text query, a status filter whose value is truthy (a
  non-empty string) and no priority or category filter, \<^verbatim>\<open>searchTasks\<close> returns exactly
  the records whose status is strictly equal to the value, in their order. And whenever the
  search by a query alone and the search by filters alone return, the search by both returns
  exactly the records that are in both results.
\<close>

theorem searchTasks_status_and_intersection:
  assumes "getTasks f s = Inr tasks"
  shows "(JNull \<notin> set tasks \<and> \<not> truthy q0 \<and>
          get_prop fl ''status'' = Inr (Some w) \<and> truthy (Some w) \<and>
          get_prop fl ''priority'' = Inr pv \<and> \<not> truthy pv \<and>
          get_prop fl ''category'' = Inr cv \<and> \<not> truthy cv \<longrightarrow>
            searchTasks f s q0 (Some fl) = Inr (filter (field_is ''status'' (Some w)) tasks)) \<and>
         (searchTasks f s q None = Inr byQuery \<and> searchTasks f s None flt = Inr byFilter \<longrightarrow>
            searchTasks f s q flt = Inr (filter (\<lambda>t. t \<in> set byQuery \<and> t \<in> set byFilter) tasks))"
proof (intro conjI impI)
  assume a: "JNull \<notin> set tasks \<and> \<not> truthy q0 \<and>
          get_prop fl ''status'' = Inr (Some w) \<and> truthy (Some w) \<and>
          get_prop fl ''priority'' = Inr pv \<and> \<not> truthy pv \<and>
          get_prop fl ''category'' = Inr cv \<and> \<not> truthy cv"
  have "\<forall>t\<in>set tasks. task_matches q0 fl t = Inr (field_is ''status'' (Some w) t)"
  proof
    fix t assume "t \<in> set tasks"
    with a have "t \<noteq> JNull" by auto
    with a show "task_matches q0 fl t = Inr (field_is ''status'' (Some w) t)"
      by (intro task_matches_status_only[where pv=pv and cv=cv and w=w]) simp_all
  qed
  then have "filter_by (task_matches q0 fl) tasks = Inr (filter (field_is ''status'' (Some w)) tasks)"
    by (subst filter_by_total) (auto intro: filter_cong)
  then show "searchTasks f s q0 (Some fl) = Inr (filter (field_is ''status'' (Some w)) tasks)"
    using assms by (simp add: searchTasks_def default_filters_def)
next
  assume a: "searchTasks f s q None = Inr byQuery \<and> searchTasks f s None flt = Inr byFilter"
  let ?fl = "default_filters flt"
  from a assms have q: "filter_by (task_matches q (JObj [])) tasks = Inr byQuery"
    and fl: "filter_by (task_matches None ?fl) tasks = Inr byFilter"
    by (simp_all add: searchTasks_def default_filters_def)
  note Q = filter_by_Inr[OF q] and F = filter_by_Inr[OF fl]
  have each: "\<forall>t\<in>set tasks. task_matches q ?fl t = Inr (t \<in> set byQuery \<and> t \<in> set byFilter)"
  proof
    fix t assume t: "t \<in> set tasks"
    from Q t obtain bq where bq: "task_matches q (JObj []) t = Inr bq" by blast
    from F t obtain bf where bf: "task_matches None ?fl t = Inr bf" by blast
    have 1: "t \<in> set byQuery \<longleftrightarrow> bq" using Q t bq by auto
    have 2: "t \<in> set byFilter \<longleftrightarrow> bf" using F t bf by auto
    from task_matches_both[OF bq bf] 1 2
    show "task_matches q ?fl t = Inr (t \<in> set byQuery \<and> t \<in> set byFilter)" by simp
  qed
  then have "filter_by (task_matches q ?fl) tasks
      = Inr (filter (\<lambda>t. t \<in> set byQuery \<and> t \<in> set byFilter) tasks)"
    by (subst filter_by_total) (auto intro: filter_cong)
  then show "searchTasks f s q flt = Inr (filter (\<lambda>t. t \<in> set byQuery \<and> t \<in> set byFilter) tasks)"
    using assms by (simp add: searchTasks_def)
qed

text \<open>The task controller passes the empty string for a filter that is not chosen.\<close>

theorem searchTasks_status_and_intersection_witness:
  "getTasks no_faults (stored_tasks [task_a, task_b]) = Inr [task_a, task_b] \<and>
   searchTasks no_faults (stored_tasks [task_a, task_b]) (Some (JStr []))
     (Some (JObj [(''status'', JStr ''concluido''), (''priority'', JStr [])])) = Inr [task_b] \<and>
   searchTasks no_faults (stored_tasks [task_a, task_b]) (Some (JStr ''EXITS'')) None = Inr [task_a] \<and>
   searchTasks no_faults (stored_tasks [task_a, task_b]) None
     (Some (JObj [(''status'', JStr ''planejado'')])) = Inr [task_a] \<and>
   searchTasks no_faults (stored_tasks [task_a, task_b]) (Some (JStr ''EXITS''))
     (Some (JObj [(''status'', JStr ''planejado'')])) = Inr [task_a]"
proof -
  let ?s = "stored_tasks [task_a, task_b]"
  have 1: "getTasks no_faults ?s = Inr [task_a, task_b]" by (rule getTasks_stored)
  have 2: "JNull \<notin> set [task_a, task_b]" by (simp add: task_a_def task_b_def)
  have 3: "truthy (Some (JStr ''concluido''))" "truthy (Some (JStr ''planejado''))"
    "\<not> truthy (Some (JStr []))" "\<not> truthy None" by simp_all
  have f1: "filter (field_is ''status'' (Some (JStr ''concluido''))) [task_a, task_b] = [task_b]"
    "filter (field_is ''status'' (Some (JStr ''planejado''))) [task_a, task_b] = [task_a]"
    by (simp_all add: field_is_def task_a_def task_b_def)
  have q: "searchTasks no_faults ?s (Some (JStr ''EXITS'')) None = Inr [task_a]"
    unfolding searchTasks_def 1 task_a_def task_b_def by code_simp
  note T = searchTasks_status_and_intersection[OF 1]
  from T[where fl="JObj [(''status'', JStr ''concluido''), (''priority'', JStr [])]"
      and w="JStr ''concluido''" and ?q0.0="Some (JStr [])" and pv="Some (JStr [])" and cv=None]
    2 3 f1
  have a: "searchTasks no_faults ?s (Some (JStr []))
      (Some (JObj [(''status'', JStr ''concluido''), (''priority'', JStr [])])) = Inr [task_b]"
    by simp
  from T[where fl="JObj [(''status'', JStr ''planejado'')]" and w="JStr ''planejado''"
      and ?q0.0="None" and pv=None and cv=None] 2 3 f1
  have b: "searchTasks no_faults ?s None (Some (JObj [(''status'', JStr ''planejado'')])) = Inr [task_a]"
    by simp
  from T[where q="Some (JStr ''EXITS'')" and flt="Some (JObj [(''status'', JStr ''planejado'')])"
      and byQuery="[task_a]" and byFilter="[task_a]"] q b
  have c: "searchTasks no_faults ?s (Some (JStr ''EXITS'')) (Some (JObj [(''status'', JStr ''planejado'')]))
      = Inr (filter (\<lambda>t. t \<in> set [task_a] \<and> t \<in> set [task_a]) [task_a, task_b])"
    by blast
  have d: "filter (\<lambda>t. t \<in> set [task_a] \<and> t \<in> set [task_a]) [task_a, task_b] = [task_a]"
    by (simp add: task_a_def task_b_def)
  from 1 a q b c d show ?thesis by simp
qed

text \<open>
  C8 as stated fails for the empty string as the status filter value: no record has the
  empty status, and yet every record is returned.
\<close>

theorem searchTasks_empty_status_counterexample:
  "searchTasks no_faults (stored_tasks [task_a, task_b]) None (Some (JObj [(''status'', JStr [])]))
     = Inr [task_a, task_b] \<and>
   get_prop task_a ''status'' = Inr (Some (JStr ''planejado'')) \<and>
   get_prop task_b ''status'' = Inr (Some (JStr ''concluido'')) \<and>
   filter (field_is ''status'' (Some (JStr []))) [task_a, task_b] = []"
  by (simp add: searchTasks_def getTasks_stored default_filters_def task_matches_def
      matchesQuery_def matchesFilter_def field_is_def task_a_def task_b_def)

section \<open>Fresh task ids\<close>



















lemma fold_max_Max: "fold max xs (m::int) = Max (set (m # xs))"
  by (rule Max.set_eq_fold[symmetric])

lemma fold_max_ge: "(m::int) \<le> fold max xs m"
  unfolding fold_max_Max by simp








end
